theory Spec2Isabelle
  imports Complex_Main "HOL-Library.Word" "HOL-Library.Product_Lexorder"
begin

section \<open>Geometric primitives and the mesh model (model.hpp)\<close>

text \<open>
  The C++ type \<open>float\<close> is idealised as \<^typ>\<open>real\<close>: rounding, overflow to infinity and
  NaN are outside this development, so "within tolerance" statements of the specification
  are proved as exact equalities of the idealised arithmetic.  The fields \<open>x\<close>, \<open>y\<close>,
  \<open>z\<close> of \<open>struct Vertex\<close> are called \<open>vx\<close>, \<open>vy\<close>, \<open>vz\<close>.  Indices of type
  \<open>size_t\<close> are natural numbers; the one place where the 64-bit width of
  \<open>unsigned long\<close> is visible (\<open>std::stoul\<close>) uses \<^typ>\<open>64 word\<close>.
\<close>

record Vertex =
  vx :: real
  vy :: real
  vz :: real

record Polygon =
  vertex_indices :: "nat list"

text \<open>
  \<open>Polygon::IsValid\<close>: the loop over the indices returns false at the first index that is
  out of range and otherwise collects the indices in a \<open>std::set\<close>, kept here as a list
  without repetitions.
\<close>

fun IsValid_loop :: "nat list \<Rightarrow> nat \<Rightarrow> nat list \<Rightarrow> nat list option" where
  "IsValid_loop [] max_vertex_index unique_indices = Some unique_indices"
| "IsValid_loop (idx # rest) max_vertex_index unique_indices =
     (if idx \<ge> max_vertex_index then None
      else IsValid_loop rest max_vertex_index (List.insert idx unique_indices))"

definition Polygon_IsValid :: "Polygon \<Rightarrow> nat \<Rightarrow> bool" where
  "Polygon_IsValid p max_vertex_index =
     (if length (vertex_indices p) < 3 then False
      else (case IsValid_loop (vertex_indices p) max_vertex_index [] of
              None \<Rightarrow> False
            | Some unique_indices \<Rightarrow> length unique_indices \<ge> 3))"

datatype ErrorCode = kSuccess | kFileOpenError | kInvalidData | kNoValidData

record Model =
  path_file :: string
  vertices :: "Vertex list"
  polygons :: "Polygon list"
  last_error :: ErrorCode
  last_error_str :: string

definition new_Model :: Model where
  "new_Model = \<lparr>path_file = [], vertices = [], polygons = [],
                last_error = kSuccess, last_error_str = []\<rparr>"

definition ClearErrors :: "Model \<Rightarrow> Model" where
  "ClearErrors m = m\<lparr>last_error := kSuccess, last_error_str := []\<rparr>"

definition SetError :: "ErrorCode \<Rightarrow> string \<Rightarrow> Model \<Rightarrow> Model" where
  "SetError code message m = m\<lparr>last_error := code, last_error_str := message\<rparr>"

definition GetVertexCount :: "Model \<Rightarrow> nat" where
  "GetVertexCount m = length (vertices m)"

definition GetPolygonCount :: "Model \<Rightarrow> nat" where
  "GetPolygonCount m = length (polygons m)"

fun all_polygons_valid :: "Polygon list \<Rightarrow> nat \<Rightarrow> bool" where
  "all_polygons_valid [] n = True"
| "all_polygons_valid (poly # rest) n =
     (if \<not> Polygon_IsValid poly n then False else all_polygons_valid rest n)"

definition Model_IsValid :: "Model \<Rightarrow> bool" where
  "Model_IsValid m =
     (if vertices m = [] then False
      else all_polygons_valid (polygons m) (length (vertices m)))"

section \<open>Transform commands (command.hpp, model_manager.hpp)\<close>

text \<open>
  The singleton \<open>ModelManager\<close> holds at most one model; \<open>GetModel\<close> returns
  \<open>nullptr\<close> when none is held.  Each command reads the manager, and its \<open>Execute\<close>
  returns the manager after the in-place mutation.
\<close>

record ModelManager =
  current_model :: "Model option"

definition GetModel :: "ModelManager \<Rightarrow> Model option" where
  "GetModel manager = current_model manager"

datatype Command =
    MoveCommand real real real
  | RotateCommand real real real
  | ScaleCommand real

definition RotatePair :: "real \<Rightarrow> real \<Rightarrow> real \<Rightarrow> real \<times> real" where
  "RotatePair coord1 coord2 angle =
     (let p1 = coord1 * cos angle - coord2 * sin angle;
          p2 = coord1 * sin angle + coord2 * cos angle
      in (p1, p2))"

definition deg_to_rad :: real where
  "deg_to_rad = pi / 180"

text \<open>The body of the loop of \<open>RotateVertices\<close>, for one vertex.\<close>

definition RotateVertex :: "real \<Rightarrow> real \<Rightarrow> real \<Rightarrow> Vertex \<Rightarrow> Vertex" where
  "RotateVertex ax ay az vertex =
     (let v1 = (if ax \<noteq> 0
                then (case RotatePair (vy vertex) (vz vertex) ax of
                        (p1, p2) \<Rightarrow> vertex\<lparr>vy := p1, vz := p2\<rparr>)
                else vertex);
          v2 = (if ay \<noteq> 0
                then (case RotatePair (vz v1) (vx v1) ay of
                        (p1, p2) \<Rightarrow> v1\<lparr>vz := p1, vx := p2\<rparr>)
                else v1);
          v3 = (if az \<noteq> 0
                then (case RotatePair (vx v2) (vy v2) az of
                        (p1, p2) \<Rightarrow> v2\<lparr>vx := p1, vy := p2\<rparr>)
                else v2)
      in v3)"

definition RotateVertices :: "real \<Rightarrow> real \<Rightarrow> real \<Rightarrow> Vertex list \<Rightarrow> bool \<Rightarrow> Vertex list" where
  "RotateVertices angle_x angle_y angle_z vs inverse_flag =
     (let ax = angle_x * deg_to_rad * (if inverse_flag then - 1 else 1);
          ay = angle_y * deg_to_rad * (if inverse_flag then - 1 else 1);
          az = angle_z * deg_to_rad * (if inverse_flag then - 1 else 1)
      in map (RotateVertex ax ay az) vs)"

fun Execute :: "Command \<Rightarrow> ModelManager \<Rightarrow> ModelManager" where
  "Execute (MoveCommand dx dy dz) manager =
     (case GetModel manager of
        None \<Rightarrow> manager
      | Some model \<Rightarrow>
          manager\<lparr>current_model := Some (model\<lparr>vertices :=
            map (\<lambda>vertex. vertex\<lparr>vx := vx vertex + dx, vy := vy vertex + dy,
                                   vz := vz vertex + dz\<rparr>) (vertices model)\<rparr>)\<rparr>)"
| "Execute (RotateCommand angle_x angle_y angle_z) manager =
     (case GetModel manager of
        None \<Rightarrow> manager
      | Some model \<Rightarrow>
          manager\<lparr>current_model := Some (model\<lparr>vertices :=
            RotateVertices angle_x angle_y angle_z (vertices model) False\<rparr>)\<rparr>)"
| "Execute (ScaleCommand factor) manager =
     (if factor \<le> 0 then manager
      else (case GetModel manager of
              None \<Rightarrow> manager
            | Some model \<Rightarrow>
                manager\<lparr>current_model := Some (model\<lparr>vertices :=
                  map (\<lambda>vertex. vertex\<lparr>vx := vx vertex * factor, vy := vy vertex * factor,
                                         vz := vz vertex * factor\<rparr>) (vertices model)\<rparr>)\<rparr>))"

section \<open>Text format parser (model.cpp)\<close>

text \<open>
  \<open>std::isspace\<close> in the C locale: space, tab, line feed, vertical tab, form feed and
  carriage return.
\<close>

definition isspace :: "char \<Rightarrow> bool" where
  "isspace ch = (ch = CHR '' '' \<or> ch = CHR 0x09 \<or> ch = CHR 0x0A \<or> ch = CHR 0x0B
                 \<or> ch = CHR 0x0C \<or> ch = CHR 0x0D)"

definition isdigit :: "char \<Rightarrow> bool" where
  "isdigit ch = (ch \<in> set ''0123456789'')"

definition digit_value :: "char \<Rightarrow> nat" where
  "digit_value ch = of_char ch - 48"

definition digits_value :: "string \<Rightarrow> nat" where
  "digits_value ds = foldl (\<lambda>acc ch. 10 * acc + digit_value ch) 0 ds"

datatype std_exception = invalid_argument | out_of_range | runtime_error string

text \<open>
  The scanners for the parts of a number: an optional sign and a run of decimal digits.
  Each returns what it read and the rest of the input.
\<close>

definition scan_sign :: "string \<Rightarrow> bool \<times> string" where
  "scan_sign s =
     (case s of
        [] \<Rightarrow> (False, [])
      | c # r \<Rightarrow> if c = CHR ''-'' then (True, r)
                 else if c = CHR ''+'' then (False, r) else (False, s))"

definition scan_digits :: "string \<Rightarrow> string \<times> string" where
  "scan_digits s = (takeWhile isdigit s, dropWhile isdigit s)"

text \<open>
  \<open>std::stoul(token)\<close> (base 10), which is \<open>strtoul\<close> on a 64-bit \<open>unsigned long\<close>:
  leading white space is skipped, one sign is accepted, the longest run of decimal digits is
  converted and whatever follows is ignored.  No digit at all throws
  \<open>std::invalid_argument\<close>; a magnitude above \<open>ULONG_MAX\<close> throws
  \<open>std::out_of_range\<close>; after a minus sign the magnitude is negated in the unsigned
  type, that is modulo \<open>2 ^ 64\<close>.
\<close>

definition stoul :: "string \<Rightarrow> std_exception + 64 word" where
  "stoul str =
     (case scan_sign (dropWhile isspace str) of
        (negative, s1) \<Rightarrow>
          (case scan_digits s1 of
             (ds, rest) \<Rightarrow>
               if ds = [] then Inl invalid_argument
               else if digits_value ds > 2 ^ 64 - 1 then Inl out_of_range
               else Inr (if negative then - word_of_nat (digits_value ds)
                         else word_of_nat (digits_value ds))))"

text \<open>
  The conversion \<open>%f\<close> of \<open>sscanf\<close>, for decimal notation: an optional sign, digits
  with an optional fraction (or a fraction alone), and an exponent when it is complete.  The
  result is the number read and the rest of the input.  Hexadecimal notation and the words
  \<open>inf\<close> and \<open>nan\<close> have no value among the reals and are not modelled.
\<close>

definition scan_fraction :: "string \<Rightarrow> string \<times> string" where
  "scan_fraction s =
     (case s of
        [] \<Rightarrow> ([], [])
      | c # r \<Rightarrow> if c = CHR ''.'' then scan_digits r else ([], s))"

definition scan_exponent :: "string \<Rightarrow> (bool \<times> nat) \<times> string" where
  "scan_exponent s =
     (case s of
        [] \<Rightarrow> ((False, 0), s)
      | c # r \<Rightarrow>
          if c = CHR ''e'' \<or> c = CHR ''E'' then
            (case scan_sign r of
               (eneg, r1) \<Rightarrow>
                 (case scan_digits r1 of
                    (ds, r2) \<Rightarrow> if ds = [] then ((False, 0), s)
                                 else ((eneg, digits_value ds), r2)))
          else ((False, 0), s))"

definition scan_float :: "string \<Rightarrow> (real \<times> string) option" where
  "scan_float s =
     (case scan_sign s of
        (negative, s1) \<Rightarrow>
          (case scan_digits s1 of
             (ip, s2) \<Rightarrow>
               (case scan_fraction s2 of
                  (fp, s3) \<Rightarrow>
                    if ip = [] \<and> fp = [] then None
                    else (case scan_exponent s3 of
                            ((eneg, e), s4) \<Rightarrow>
                              (let mantissa = real (digits_value (ip @ fp)) / 10 ^ length fp;
                                   magnitude = (if eneg then mantissa / 10 ^ e
                                                else mantissa * 10 ^ e)
                               in Some (if negative then - magnitude else magnitude, s4))))))"

text \<open>
  Up to \<open>n\<close> successive \<open>%f\<close> conversions, each after skipping white space (the blank
  of the format and the conversion itself both skip it); scanning stops at the first
  conversion that fails.  The values converted so far are returned, so that the length of
  the result is the count \<open>sscanf\<close> returns (an early end of input, reported as
  \<open>EOF\<close>, also differs from 3).
\<close>

fun scan_floats :: "nat \<Rightarrow> string \<Rightarrow> real list" where
  "scan_floats 0 s = []"
| "scan_floats (Suc n) s =
     (case scan_float (dropWhile isspace s) of
        None \<Rightarrow> []
      | Some (v, rest) \<Rightarrow> v # scan_floats n rest)"

definition sscanf_v_fff :: "string \<Rightarrow> real list" where
  "sscanf_v_fff line =
     (case line of
        [] \<Rightarrow> []
      | c # rest \<Rightarrow> if c = CHR ''v'' then scan_floats 3 rest else [])"

text \<open>
  \<open>ParseVertex\<close> and \<open>ParsePolygon\<close> either throw (\<open>Inl\<close> with the text of
  \<open>what()\<close>) or return the model and their boolean result.
\<close>

definition ParseVertex :: "string \<Rightarrow> Model \<Rightarrow> string + (Model \<times> bool)" where
  "ParseVertex line m =
     (case sscanf_v_fff line of
        [a, b, c] \<Rightarrow> Inr (m\<lparr>vertices := vertices m @ [\<lparr>vx = a, vy = b, vz = c\<rparr>]\<rparr>, True)
      | _ \<Rightarrow> Inl ''Invalid vertex format'')"

text \<open>The tokens that \<open>iss >> token\<close> extracts: maximal runs without white space.\<close>

fun extract_tokens :: "string \<Rightarrow> string \<Rightarrow> string list" where
  "extract_tokens [] token = (if token = [] then [] else [token])"
| "extract_tokens (ch # rest) token =
     (if isspace ch then (if token = [] then extract_tokens rest []
                          else token # extract_tokens rest [])
      else extract_tokens rest (token @ [ch]))"

definition cut_slash :: "string \<Rightarrow> string" where
  "cut_slash token = takeWhile (\<lambda>ch. ch \<noteq> CHR ''/'') token"

text \<open>
  The token loop of \<open>ParsePolygon\<close>.  \<open>vertex_count\<close> is \<open>vertices_.size()\<close>, a number
  below \<open>2 ^ 64\<close> on the machine, so the comparison with the parsed word is the comparison
  of the numbers.
\<close>

fun ParsePolygon_loop :: "string list \<Rightarrow> nat \<Rightarrow> nat list \<Rightarrow> string + nat list" where
  "ParsePolygon_loop [] vertex_count indices = Inr indices"
| "ParsePolygon_loop (tok # rest) vertex_count indices =
     (let token = cut_slash tok in
      case stoul token of
        Inl e \<Rightarrow> Inl (''Invalid face index: '' @ token)
      | Inr idx \<Rightarrow>
          if idx = 0 \<or> unat idx > vertex_count
          then Inl (''Invalid face index: '' @ token)
          else ParsePolygon_loop rest vertex_count (indices @ [unat idx - 1]))"

definition ParsePolygon :: "string \<Rightarrow> Model \<Rightarrow> string + (Model \<times> bool)" where
  "ParsePolygon line m =
     (case ParsePolygon_loop (extract_tokens (drop 2 line) []) (length (vertices m)) [] of
        Inl what \<Rightarrow> Inl what
      | Inr indices \<Rightarrow>
          (let p = \<lparr>vertex_indices = indices\<rparr> in
           if Polygon_IsValid p (length (vertices m))
           then Inr (m\<lparr>polygons := polygons m @ [p]\<rparr>, True)
           else Inr (m, False)))"

function to_string :: "nat \<Rightarrow> string" where
  "to_string n = (if n < 10 then [char_of (48 + n)]
                  else to_string (n div 10) @ [char_of (48 + n mod 10)])"
  by pat_completeness auto
termination
  by (relation "measure (\<lambda>n. n)") auto

declare to_string.simps [simp del]

definition starts_with :: "string \<Rightarrow> string \<Rightarrow> bool" where
  "starts_with line prefix = (take (length prefix) line = prefix)"

text \<open>
  The \<open>while (std::getline(file, line))\<close> loop of \<open>LoadFromFile\<close> over the lines that
  are left, with the loop state \<open>line_num\<close>, \<open>has_valid_data\<close> and the model.
\<close>

fun LoadFromFile_loop :: "string list \<Rightarrow> nat \<Rightarrow> bool \<Rightarrow> Model \<Rightarrow> bool \<times> Model" where
  "LoadFromFile_loop [] line_num has_valid_data m = (has_valid_data, m)"
| "LoadFromFile_loop (raw # rest) line_num has_valid_data m =
     (let line = dropWhile isspace raw in
      if line = [] \<or> hd line = CHR ''#''
      then LoadFromFile_loop rest (line_num + 1) has_valid_data m
      else if starts_with line ''v '' then
        (case ParseVertex line m of
           Inr (m', ok) \<Rightarrow>
             LoadFromFile_loop rest (line_num + 1) (if ok then True else has_valid_data) m'
         | Inl what \<Rightarrow>
             LoadFromFile_loop rest (line_num + 1) has_valid_data
               (SetError kInvalidData
                  (''Error at line '' @ to_string (line_num + 1) @ '': '' @ what) m))
      else if starts_with line ''f '' then
        (case ParsePolygon line m of
           Inr (m', ok) \<Rightarrow>
             LoadFromFile_loop rest (line_num + 1) (if ok then True else has_valid_data) m'
         | Inl what \<Rightarrow>
             LoadFromFile_loop rest (line_num + 1) has_valid_data
               (SetError kInvalidData
                  (''Error at line '' @ to_string (line_num + 1) @ '': '' @ what) m))
      else LoadFromFile_loop rest (line_num + 1) has_valid_data m)"

text \<open>
  \<open>LoadFromFile\<close>.  The file system is the function \<open>fs\<close>: \<open>fs path\<close> is \<open>None\<close>
  when the file cannot be opened and otherwise the lines \<open>std::getline\<close> reads.
\<close>

definition LoadFromFile :: "(string \<Rightarrow> string list option) \<Rightarrow> string \<Rightarrow> Model \<Rightarrow> bool \<times> Model" where
  "LoadFromFile fs path m0 =
     (let m1 = (ClearErrors m0)\<lparr>vertices := [], polygons := [], path_file := path\<rparr> in
      case fs path of
        None \<Rightarrow>
          (False, (SetError kFileOpenError (''Failed to open file: '' @ path) m1)
                    \<lparr>path_file := ''Failed to open file: '' @ path\<rparr>)
      | Some file_lines \<Rightarrow>
          (case LoadFromFile_loop file_lines 0 False m1 of
             (has_valid_data, m2) \<Rightarrow>
               if \<not> has_valid_data
               then (False, SetError kNoValidData ''No valid data found in file'' m2)
               else if \<not> Model_IsValid m2
               then (False, SetError kInvalidData ''Loaded data is invalid'' m2)
               else (True, m2)))"

section \<open>Edges (model.cpp)\<close>

text \<open>
  \<open>std::set<std::pair<size_t, size_t>>\<close> is kept as the strictly increasing list of its
  elements in the lexicographic order of pairs, which is also the order of the vector that
  \<open>GetEdges\<close> returns.
\<close>

definition set_insert :: "nat \<times> nat \<Rightarrow> (nat \<times> nat) list \<Rightarrow> (nat \<times> nat) list" where
  "set_insert edge unique_edges =
     (if edge \<in> set unique_edges then unique_edges else insort edge unique_edges)"

text \<open>The inner loop of \<open>GetEdges\<close> from position \<open>i\<close> on, over the indices \<open>vi\<close>.\<close>

function GetEdges_inner :: "nat list \<Rightarrow> nat \<Rightarrow> (nat \<times> nat) list \<Rightarrow> (nat \<times> nat) list" where
  "GetEdges_inner vi i unique_edges =
     (if i < length vi then
        (let start = vi ! i;
             end = vi ! ((i + 1) mod length vi)
         in if start = end then GetEdges_inner vi (i + 1) unique_edges
            else GetEdges_inner vi (i + 1)
                   (set_insert (if start < end then (start, end) else (end, start)) unique_edges))
      else unique_edges)"
  by pat_completeness auto
termination
  by (relation "measure (\<lambda>(vi, i, unique_edges). length vi - i)") auto

declare GetEdges_inner.simps [simp del]

fun GetEdges_outer :: "Polygon list \<Rightarrow> (nat \<times> nat) list \<Rightarrow> (nat \<times> nat) list" where
  "GetEdges_outer [] unique_edges = unique_edges"
| "GetEdges_outer (poly # rest) unique_edges =
     (if length (vertex_indices poly) < 2 then GetEdges_outer rest unique_edges
      else GetEdges_outer rest (GetEdges_inner (vertex_indices poly) 0 unique_edges))"

definition GetEdges :: "Model \<Rightarrow> (nat \<times> nat) list" where
  "GetEdges m = GetEdges_outer (polygons m) []"

definition GetEdgeCount :: "Model \<Rightarrow> nat" where
  "GetEdgeCount m = length (GetEdges m)"

section \<open>Normalisation (model.cpp) and the model manager\<close>

record BBox =
  min_x :: real
  min_y :: real
  min_z :: real
  max_x :: real
  max_y :: real
  max_z :: real

definition bbox_step :: "Vertex \<Rightarrow> BBox \<Rightarrow> BBox" where
  "bbox_step v b =
     \<lparr>min_x = min (min_x b) (vx v), min_y = min (min_y b) (vy v), min_z = min (min_z b) (vz v),
      max_x = max (max_x b) (vx v), max_y = max (max_y b) (vy v), max_z = max (max_z b) (vz v)\<rparr>"

definition NormalizeModel :: "Model \<Rightarrow> Model" where
  "NormalizeModel m =
     (case vertices m of
        [] \<Rightarrow> m
      | v0 # _ \<Rightarrow>
          (let b = fold bbox_step (vertices m)
                     \<lparr>min_x = vx v0, min_y = vy v0, min_z = vz v0,
                      max_x = vx v0, max_y = vy v0, max_z = vz v0\<rparr>;
               center_x = (min_x b + max_x b) * 0.5;
               center_y = (min_y b + max_y b) * 0.5;
               center_z = (min_z b + max_z b) * 0.5;
               dx = max_x b - min_x b;
               dy = max_y b - min_y b;
               dz = max_z b - min_z b;
               diagonal = sqrt (dx * dx + dy * dy + dz * dz);
               radius0 = diagonal * 0.5;
               radius = (if radius0 < 1 / 1000000 then 1 else radius0);
               scale_factor = 1 / radius
           in m\<lparr>vertices :=
                 map (\<lambda>v. \<lparr>vx = (vx v - center_x) * scale_factor,
                            vy = (vy v - center_y) * scale_factor,
                            vz = (vz v - center_z) * scale_factor\<rparr>) (vertices m)\<rparr>))"

definition LoadModel :: "(string \<Rightarrow> string list option) \<Rightarrow> string \<Rightarrow> ModelManager \<Rightarrow> bool \<times> ModelManager" where
  "LoadModel fs path manager =
     (case LoadFromFile fs path new_Model of
        (flag, m) \<Rightarrow>
          (flag, manager\<lparr>current_model := Some (if flag then NormalizeModel m else m)\<rparr>))"

definition LoadModelForTest :: "(string \<Rightarrow> string list option) \<Rightarrow> string \<Rightarrow> ModelManager \<Rightarrow> bool \<times> ModelManager" where
  "LoadModelForTest fs path manager =
     (case LoadFromFile fs path new_Model of
        (flag, m) \<Rightarrow> (flag, manager\<lparr>current_model := Some m\<rparr>))"

section \<open>The formulas of the specification\<close>

text \<open>
  The definitions of this section follow the words of the specification, not the code;
  the theorems compare them with the code.
\<close>

subsection \<open>Rotation\<close>







subsection \<open>Vertex records\<close>






subsection \<open>Face indices\<close>

text \<open>
  "Each remaining token must parse as a positive integer": the integer that a token
  denotes, an optional sign followed by decimal digits, as a number without bound.
\<close>

definition spec_token_value :: "string \<Rightarrow> int option" where
  "spec_token_value token =
     (case scan_sign token of
        (negative, s1) \<Rightarrow>
          (case scan_digits s1 of
             (ds, rest) \<Rightarrow>
               if ds = [] then None
               else Some (if negative then - int (digits_value ds)
                          else int (digits_value ds))))"

subsection \<open>Edges\<close>

text \<open>
  "An unordered pair of vertex indices, derived from consecutive index pairs within each
  polygon, including the wrap-around pair (last index, first index)", stored as (min, max).
  \<open>spec_edges_literal\<close> takes every consecutive pair; \<open>spec_edges\<close> takes those whose
  two indices differ.
\<close>

definition spec_consecutive_pairs :: "nat list \<Rightarrow> (nat \<times> nat) list" where
  "spec_consecutive_pairs vi =
     map (\<lambda>i. (vi ! i, vi ! ((i + 1) mod length vi))) [0..<length vi]"

definition spec_unordered :: "nat \<times> nat \<Rightarrow> nat \<times> nat" where
  "spec_unordered e = (min (fst e) (snd e), max (fst e) (snd e))"

definition spec_edges_literal :: "Model \<Rightarrow> (nat \<times> nat) set" where
  "spec_edges_literal m =
     (\<Union>p \<in> set (polygons m). spec_unordered ` set (spec_consecutive_pairs (vertex_indices p)))"

definition spec_edges :: "Model \<Rightarrow> (nat \<times> nat) set" where
  "spec_edges m =
     (\<Union>p \<in> set (polygons m).
        spec_unordered ` {e \<in> set (spec_consecutive_pairs (vertex_indices p)). fst e \<noteq> snd e})"

text \<open>
  For the loop of \<open>GetEdges\<close>: the consecutive pair at position \<open>j\<close>, and the pairs of
  distinct indices at the positions from \<open>i\<close> on.
\<close>

definition pair_at :: "nat list \<Rightarrow> nat \<Rightarrow> nat \<times> nat" where
  "pair_at vi j = (vi ! j, vi ! ((j + 1) mod length vi))"

definition pairs_from :: "nat list \<Rightarrow> nat \<Rightarrow> (nat \<times> nat) set" where
  "pairs_from vi i =
     pair_at vi ` {j. i \<le> j \<and> j < length vi \<and> fst (pair_at vi j) \<noteq> snd (pair_at vi j)}"

subsection \<open>Normalisation\<close>

text \<open>
  "Compute the axis-aligned bounding box of all vertices; center = box midpoint; radius =
  half the box's diagonal length; guard against a degenerate (near-zero) radius by
  substituting 1.0; translate every vertex by \<open>-center\<close>, then scale by \<open>1/radius\<close>."
  The box is given by the least and the greatest value of each coordinate; a radius is near
  zero when it is below one millionth, the threshold \<open>1e-6f\<close> of the code.
\<close>

definition spec_box_min :: "(Vertex \<Rightarrow> real) \<Rightarrow> Vertex list \<Rightarrow> real" where
  "spec_box_min coord vs = Min (coord ` set vs)"

definition spec_box_max :: "(Vertex \<Rightarrow> real) \<Rightarrow> Vertex list \<Rightarrow> real" where
  "spec_box_max coord vs = Max (coord ` set vs)"


definition spec_radius :: "Vertex list \<Rightarrow> real" where
  "spec_radius vs =
     sqrt ((spec_box_max vx vs - spec_box_min vx vs)\<^sup>2
         + (spec_box_max vy vs - spec_box_min vy vs)\<^sup>2
         + (spec_box_max vz vs - spec_box_min vz vs)\<^sup>2) / 2"







subsection \<open>The invariant of the loading loop\<close>

text \<open>
  The state of the loop of \<open>LoadFromFile\<close> is the flag \<open>has_valid_data\<close> and the model.
  Every polygon in the buffer is valid for the current number of vertices; the flag is set
  only when the vertex buffer is not empty, and as long as it is not set both buffers are
  empty.
\<close>

definition load_inv :: "bool \<Rightarrow> Model \<Rightarrow> bool" where
  "load_inv has_valid_data m =
     (all_polygons_valid (polygons m) (length (vertices m))
      \<and> (if has_valid_data then vertices m \<noteq> [] else vertices m = [] \<and> polygons m = []))"

section \<open>Frame conditions of the transform commands\<close>

lemma Execute_no_model:
  "current_model manager = None \<Longrightarrow> Execute cmd manager = manager"
  by (cases cmd) (simp_all add: GetModel_def)

lemma Execute_frame:
  assumes "current_model manager = Some model"
  shows "\<exists>vs. Execute cmd manager = manager\<lparr>current_model := Some (model\<lparr>vertices := vs\<rparr>)\<rparr>
              \<and> length vs = length (vertices model)"
proof -
  have "\<exists>f. Execute cmd manager
          = manager\<lparr>current_model := Some (model\<lparr>vertices := map f (vertices model)\<rparr>)\<rparr>"
  proof (cases cmd)
    case (MoveCommand dx dy dz)
    then show ?thesis using assms by (auto simp: GetModel_def)
  next
    case (RotateCommand ax ay az)
    then show ?thesis using assms by (auto simp: GetModel_def RotateVertices_def Let_def)
  next
    case (ScaleCommand factor)
    show ?thesis
    proof (cases "factor \<le> 0")
      case True
      have "manager = manager\<lparr>current_model := Some (model\<lparr>vertices := map id (vertices model)\<rparr>)\<rparr>"
        using assms by simp
      then show ?thesis using ScaleCommand True by (intro exI[of _ id]) simp
    next
      case False
      then show ?thesis using ScaleCommand assms by (auto simp: GetModel_def)
    qed
  qed
  then obtain f where
    "Execute cmd manager
       = manager\<lparr>current_model := Some (model\<lparr>vertices := map f (vertices model)\<rparr>)\<rparr>"
    by blast
  moreover have "length (map f (vertices model)) = length (vertices model)"
    by simp
  ultimately show ?thesis by blast
qed

text \<open>
  Claim C10.  Executing a transform command (\<open>MoveCommand\<close>, \<open>RotateCommand\<close> or
  \<open>ScaleCommand\<close>, with any parameters) on a manager that holds a model replaces the
  model by one that differs at most in its vertex buffer: the polygon buffer, the last
  error code, the last error message and the stored path are the same, and the number of
  vertices is the same.  On a manager that holds no model the command returns the manager
  as it was; \<open>Execute\<close> has no failing outcome.
\<close>

theorem transform_changes_only_vertices:
  "case current_model manager of
     None \<Rightarrow> Execute cmd manager = manager
   | Some model \<Rightarrow>
       (\<exists>model'. Execute cmd manager = manager\<lparr>current_model := Some model'\<rparr>
          \<and> polygons model' = polygons model
          \<and> last_error model' = last_error model
          \<and> last_error_str model' = last_error_str model
          \<and> path_file model' = path_file model
          \<and> length (vertices model') = length (vertices model))"
proof (cases "current_model manager")
  case None
  then show ?thesis by (simp add: Execute_no_model)
next
  case (Some model)
  from Execute_frame[OF Some, of cmd] obtain vs where
    vs: "Execute cmd manager = manager\<lparr>current_model := Some (model\<lparr>vertices := vs\<rparr>)\<rparr>"
    and len: "length vs = length (vertices model)" by blast
  show ?thesis using Some vs len by auto
qed

theorem transform_changes_only_vertices_witness:
  "Execute (RotateCommand 90 0 0) \<lparr>current_model = None\<rparr> = \<lparr>current_model = None\<rparr>
   \<and> (\<exists>model'. Execute (ScaleCommand 2)
          \<lparr>current_model = Some \<lparr>path_file = ''a.obj'', vertices = [\<lparr>vx = 1, vy = 0, vz = 0\<rparr>],
             polygons = [\<lparr>vertex_indices = [0, 0, 0]\<rparr>], last_error = kInvalidData,
             last_error_str = ''e''\<rparr>\<rparr> = \<lparr>current_model = Some model'\<rparr>
        \<and> polygons model' = [\<lparr>vertex_indices = [0, 0, 0]\<rparr>]
        \<and> last_error model' = kInvalidData \<and> last_error_str model' = ''e''
        \<and> path_file model' = ''a.obj'' \<and> length (vertices model') = 1)"
  using transform_changes_only_vertices[where manager="\<lparr>current_model = None\<rparr>" and cmd="RotateCommand 90 0 0"]
        transform_changes_only_vertices[where manager="\<lparr>current_model = Some \<lparr>path_file = ''a.obj'', vertices = [\<lparr>vx = 1, vy = 0, vz = 0\<rparr>],
             polygons = [\<lparr>vertex_indices = [0, 0, 0]\<rparr>], last_error = kInvalidData,
             last_error_str = ''e''\<rparr>\<rparr>" and cmd="ScaleCommand 2"]
  by simp

section \<open>Rotation and scaling\<close>









section \<open>Loading\<close>

subsection \<open>Validity of polygons\<close>

lemma IsValid_loop_None:
  "IsValid_loop idxs n acc = None \<longleftrightarrow> (\<exists>i \<in> set idxs. n \<le> i)"
  by (induction idxs arbitrary: acc) auto

lemma IsValid_loop_Some:
  "IsValid_loop idxs n acc = Some u \<Longrightarrow> distinct acc \<Longrightarrow>
     distinct u \<and> set u = set idxs \<union> set acc"
proof (induction idxs arbitrary: acc)
  case Nil
  then show ?case by simp
next
  case (Cons i idxs)
  then show ?case by (auto split: if_splits)
qed

lemma Polygon_IsValid_iff:
  "Polygon_IsValid p n \<longleftrightarrow>
     (\<forall>i \<in> set (vertex_indices p). i < n) \<and> 3 \<le> card (set (vertex_indices p))"
proof (cases "IsValid_loop (vertex_indices p) n []")
  case None
  then have "\<exists>i \<in> set (vertex_indices p). n \<le> i" by (simp add: IsValid_loop_None)
  then have "\<not> (\<forall>i \<in> set (vertex_indices p). i < n)" by (meson not_le)
  then show ?thesis using None by (simp add: Polygon_IsValid_def)
next
  case (Some u)
  then have "\<not> (\<exists>i \<in> set (vertex_indices p). n \<le> i)"
    using IsValid_loop_None[of "vertex_indices p" n "[]"] by simp
  then have inrange: "\<forall>i \<in> set (vertex_indices p). i < n" by auto
  from IsValid_loop_Some[OF Some] have u: "distinct u" "set u = set (vertex_indices p)" by simp_all
  then have len: "length u = card (set (vertex_indices p))"
    using distinct_card by fastforce
  have "card (set (vertex_indices p)) \<le> length (vertex_indices p)" by (rule card_length)
  then show ?thesis using Some inrange len by (auto simp: Polygon_IsValid_def)
qed

lemma Polygon_IsValid_mono:
  "Polygon_IsValid p n \<Longrightarrow> n \<le> n' \<Longrightarrow> Polygon_IsValid p n'"
  by (fastforce simp: Polygon_IsValid_iff)

lemma Polygon_IsValid_pos: "Polygon_IsValid p n \<Longrightarrow> 0 < n"
proof -
  assume v: "Polygon_IsValid p n"
  then have "3 \<le> card (set (vertex_indices p))" by (simp only: Polygon_IsValid_iff)
  then have "set (vertex_indices p) \<noteq> {}" by (metis card.empty not_numeral_le_zero)
  then have "\<exists>i. i \<in> set (vertex_indices p)" by (simp only: ex_in_conv not_False_eq_True)
  then obtain i where "i \<in> set (vertex_indices p)" ..
  with v have "i < n" by (simp add: Polygon_IsValid_iff)
  then show ?thesis by simp
qed

lemma all_polygons_valid_iff:
  "all_polygons_valid ps n \<longleftrightarrow> (\<forall>p \<in> set ps. Polygon_IsValid p n)"
  by (induction ps) auto

lemma ParseVertex_Inr:
  "ParseVertex line m = Inr (m', ok) \<Longrightarrow>
     ok \<and> (\<exists>v. m' = m\<lparr>vertices := vertices m @ [v]\<rparr>)"
  by (auto simp: ParseVertex_def split: list.splits)

lemma ParsePolygon_Inr:
  "ParsePolygon line m = Inr (m', ok) \<Longrightarrow>
     (if ok then \<exists>p. m' = m\<lparr>polygons := polygons m @ [p]\<rparr> \<and> Polygon_IsValid p (length (vertices m))
      else m' = m)"
  by (auto simp: ParsePolygon_def Let_def split: sum.splits if_splits)

subsection \<open>The loading loop keeps its invariant\<close>

lemma load_inv_SetError:
  "load_inv h (SetError code msg m) = load_inv h m"
  by (simp add: load_inv_def SetError_def)

lemma load_inv_ParseVertex:
  assumes "load_inv h m" "ParseVertex line m = Inr (m', ok)"
  shows "load_inv (if ok then True else h) m'"
proof -
  from ParseVertex_Inr[OF assms(2)] obtain v where ok: ok and m': "m' = m\<lparr>vertices := vertices m @ [v]\<rparr>"
    by blast
  have "all_polygons_valid (polygons m) (length (vertices m) + 1)"
    using assms(1) Polygon_IsValid_mono[of _ "length (vertices m)" "length (vertices m) + 1"]
    by (auto simp: load_inv_def all_polygons_valid_iff)
  then show ?thesis using ok m' by (simp add: load_inv_def)
qed

lemma load_inv_ParsePolygon:
  assumes "load_inv h m" "ParsePolygon line m = Inr (m', ok)"
  shows "load_inv (if ok then True else h) m'"
proof (cases ok)
  case True
  with ParsePolygon_Inr[OF assms(2)] obtain p where
    m': "m' = m\<lparr>polygons := polygons m @ [p]\<rparr>" and p: "Polygon_IsValid p (length (vertices m))"
    by auto
  from p have "vertices m \<noteq> []" using Polygon_IsValid_pos by fastforce
  then show ?thesis using True m' p assms(1)
    by (auto simp: load_inv_def all_polygons_valid_iff split: if_splits)
next
  case False
  with ParsePolygon_Inr[OF assms(2)] have "m' = m" by simp
  then show ?thesis using False assms(1) by simp
qed

lemma LoadFromFile_loop_rule:
  assumes start: "P h m"
    and err: "\<And>h m code msg. P h m \<Longrightarrow> P h (SetError code msg m)"
    and vert: "\<And>h m line m' ok. P h m \<Longrightarrow> ParseVertex line m = Inr (m', ok)
                 \<Longrightarrow> P (if ok then True else h) m'"
    and poly: "\<And>h m line m' ok. P h m \<Longrightarrow> ParsePolygon line m = Inr (m', ok)
                 \<Longrightarrow> P (if ok then True else h) m'"
    and run: "LoadFromFile_loop file_lines n h m = (h', m')"
  shows "P h' m'"
  using start run
proof (induction file_lines arbitrary: n h m)
  case Nil
  then show ?case by simp
next
  case (Cons raw rest)
  define line where "line = dropWhile isspace raw"
  have unfold: "LoadFromFile_loop (raw # rest) n h m =
     (if line = [] \<or> hd line = CHR ''#''
      then LoadFromFile_loop rest (n + 1) h m
      else if starts_with line ''v '' then
        (case ParseVertex line m of
           Inr (m', ok) \<Rightarrow> LoadFromFile_loop rest (n + 1) (if ok then True else h) m'
         | Inl what \<Rightarrow>
             LoadFromFile_loop rest (n + 1) h
               (SetError kInvalidData
                  (''Error at line '' @ to_string (n + 1) @ '': '' @ what) m))
      else if starts_with line ''f '' then
        (case ParsePolygon line m of
           Inr (m', ok) \<Rightarrow> LoadFromFile_loop rest (n + 1) (if ok then True else h) m'
         | Inl what \<Rightarrow>
             LoadFromFile_loop rest (n + 1) h
               (SetError kInvalidData
                  (''Error at line '' @ to_string (n + 1) @ '': '' @ what) m))
      else LoadFromFile_loop rest (n + 1) h m)"
    unfolding line_def LoadFromFile_loop.simps Let_def by (rule refl)
  have "\<exists>h1 m1. P h1 m1 \<and> LoadFromFile_loop (raw # rest) n h m
           = LoadFromFile_loop rest (n + 1) h1 m1"
  proof (cases "line = [] \<or> hd line = CHR ''#''")
    case True
    then have "LoadFromFile_loop (raw # rest) n h m = LoadFromFile_loop rest (n + 1) h m"
      unfolding unfold by simp
    then show ?thesis using Cons.prems(1) by blast
  next
    case skip: False
    show ?thesis
    proof (cases "starts_with line ''v ''")
      case True
      show ?thesis
      proof (cases "ParseVertex line m")
        case (Inl what)
        then have "LoadFromFile_loop (raw # rest) n h m = LoadFromFile_loop rest (n + 1) h
               (SetError kInvalidData
                  (''Error at line '' @ to_string (n + 1) @ '': '' @ what) m)"
          unfolding unfold using skip True by simp
        moreover have "P h (SetError kInvalidData
                  (''Error at line '' @ to_string (n + 1) @ '': '' @ what) m)"
          using Cons.prems(1) by (rule err)
        ultimately show ?thesis by blast
      next
        case (Inr r)
        obtain m1 ok where r: "r = (m1, ok)" by (cases r)
        have "P (if ok then True else h) m1"
          using vert Cons.prems(1) Inr r by blast
        moreover have "LoadFromFile_loop (raw # rest) n h m
            = LoadFromFile_loop rest (n + 1) (if ok then True else h) m1"
          unfolding unfold using skip True Inr r by simp
        ultimately show ?thesis by blast
      qed
    next
      case notv: False
      show ?thesis
      proof (cases "starts_with line ''f ''")
        case True
        show ?thesis
        proof (cases "ParsePolygon line m")
          case (Inl what)
          then have "LoadFromFile_loop (raw # rest) n h m = LoadFromFile_loop rest (n + 1) h
                 (SetError kInvalidData
                    (''Error at line '' @ to_string (n + 1) @ '': '' @ what) m)"
            unfolding unfold using skip notv True by simp
          moreover have "P h (SetError kInvalidData
                    (''Error at line '' @ to_string (n + 1) @ '': '' @ what) m)"
            using Cons.prems(1) by (rule err)
          ultimately show ?thesis by blast
        next
          case (Inr r)
          obtain m1 ok where r: "r = (m1, ok)" by (cases r)
          have "P (if ok then True else h) m1"
            using poly Cons.prems(1) Inr r by blast
          moreover have "LoadFromFile_loop (raw # rest) n h m
              = LoadFromFile_loop rest (n + 1) (if ok then True else h) m1"
            unfolding unfold using skip notv True Inr r by simp
          ultimately show ?thesis by blast
        qed
      next
        case False
        then have "LoadFromFile_loop (raw # rest) n h m = LoadFromFile_loop rest (n + 1) h m"
          unfolding unfold using skip notv by simp
        then show ?thesis using Cons.prems(1) by blast
      qed
    qed
  qed
  then obtain h1 m1 where "P h1 m1"
    and "LoadFromFile_loop (raw # rest) n h m = LoadFromFile_loop rest (n + 1) h1 m1"
    by blast
  then show ?case using Cons.IH[of h1 m1 "n + 1"] Cons.prems(2) by simp
qed

lemma LoadFromFile_loop_inv:
  "load_inv h m \<Longrightarrow> LoadFromFile_loop file_lines n h m = (h', m') \<Longrightarrow> load_inv h' m'"
  by (rule LoadFromFile_loop_rule[where P = load_inv and h = h and m = m])
     (simp_all only: load_inv_SetError load_inv_ParseVertex load_inv_ParsePolygon)

lemma LoadFromFile_loop_vertex_count:
  assumes "LoadFromFile_loop file_lines n h m = (h', m')"
  shows "length (vertices m) \<le> length (vertices m')"
proof (rule LoadFromFile_loop_rule[where
      P = "\<lambda>(h1::bool) (m1::Model). length (vertices m) \<le> length (vertices m1)"
      and h = h and m = m, OF _ _ _ _ assms])
  show "length (vertices m) \<le> length (vertices m)" by simp
next
  fix h1 :: bool and m1 :: Model and code msg
  assume "length (vertices m) \<le> length (vertices m1)"
  then show "length (vertices m) \<le> length (vertices (SetError code msg m1))"
    by (simp add: SetError_def)
next
  fix h1 :: bool and m1 :: Model and line m1' ok
  assume "length (vertices m) \<le> length (vertices m1)" "ParseVertex line m1 = Inr (m1', ok)"
  then show "length (vertices m) \<le> length (vertices m1')"
    using ParseVertex_Inr by fastforce
next
  fix h1 :: bool and m1 :: Model and line m1' ok
  assume "length (vertices m) \<le> length (vertices m1)" "ParsePolygon line m1 = Inr (m1', ok)"
  then show "length (vertices m) \<le> length (vertices m1')"
    using ParsePolygon_Inr[of line m1 m1' ok] by (cases ok) auto
qed

lemma load_inv_start:
  "load_inv False ((ClearErrors m0)\<lparr>vertices := [], polygons := [], path_file := path\<rparr>)"
  by (simp add: load_inv_def)

lemma load_inv_True_IsValid: "load_inv True m \<Longrightarrow> Model_IsValid m"
  by (simp add: load_inv_def Model_IsValid_def)

lemma LoadFromFile_failure_buffers:
  assumes "fst (LoadFromFile fs path m0) = False"
  shows "vertices (snd (LoadFromFile fs path m0)) = []
         \<and> polygons (snd (LoadFromFile fs path m0)) = []
         \<and> (last_error (snd (LoadFromFile fs path m0)) = kFileOpenError
            \<or> last_error (snd (LoadFromFile fs path m0)) = kNoValidData)"
proof (cases "fs path")
  case None
  then show ?thesis by (simp add: LoadFromFile_def SetError_def ClearErrors_def)
next
  case (Some file_lines)
  let ?m1 = "(ClearErrors m0)\<lparr>vertices := [], polygons := [], path_file := path\<rparr>"
  obtain h m2 where run: "LoadFromFile_loop file_lines 0 False ?m1 = (h, m2)"
    by (cases "LoadFromFile_loop file_lines 0 False ?m1")
  have inv: "load_inv h m2" using LoadFromFile_loop_inv[OF load_inv_start run] .
  show ?thesis
  proof (cases h)
    case True
    then have "Model_IsValid m2" using inv load_inv_True_IsValid by simp
    then have "LoadFromFile fs path m0 = (True, m2)"
      using Some run True by (simp add: LoadFromFile_def Let_def)
    then show ?thesis using assms by simp
  next
    case False
    then have "LoadFromFile fs path m0 = (False, SetError kNoValidData ''No valid data found in file'' m2)"
      using Some run by (simp add: LoadFromFile_def Let_def)
    moreover have "vertices m2 = [] \<and> polygons m2 = []" using inv False by (simp add: load_inv_def)
    ultimately show ?thesis by (simp add: SetError_def)
  qed
qed

subsection \<open>Concrete files\<close>

lemma scan_floats_numeral:
  "scan_floats (numeral k) s =
     (case scan_float (dropWhile isspace s) of
        None \<Rightarrow> []
      | Some (v, rest) \<Rightarrow> v # scan_floats (pred_numeral k) rest)"
  by (simp add: numeral_eq_Suc)

lemmas parser_defs =
  scan_floats_numeral
  isspace_def isdigit_def digit_value_def digits_value_def starts_with_def
  ParseVertex_def sscanf_v_fff_def scan_float_def scan_exponent_def
  scan_sign_def scan_digits_def scan_fraction_def
  ParsePolygon_def cut_slash_def stoul_def Polygon_IsValid_def
  SetError_def ClearErrors_def new_Model_def Let_def

lemma example_load_loop:
  "LoadFromFile_loop [''v 0 0 0'', ''v 1 0 0'', ''v 0 1 0'', ''f 1 2 3''] 0 False
     ((ClearErrors new_Model)\<lparr>vertices := [], polygons := [], path_file := ''a.obj''\<rparr>)
   = (True, \<lparr>path_file = ''a.obj'',
        vertices = [\<lparr>vx = 0, vy = 0, vz = 0\<rparr>, \<lparr>vx = 1, vy = 0, vz = 0\<rparr>,
                    \<lparr>vx = 0, vy = 1, vz = 0\<rparr>],
        polygons = [\<lparr>vertex_indices = [0, 1, 2]\<rparr>],
        last_error = kSuccess, last_error_str = []\<rparr>)"
  by (simp add: parser_defs)

lemma example_failed_load:
  "fst (LoadFromFile (\<lambda>p. Some [''# mesh'', ''v 1 2'', ''f 1 2 3'']) ''b.obj''
     \<lparr>path_file = ''a.obj'', vertices = [\<lparr>vx = 0, vy = 0, vz = 0\<rparr>], polygons = [],
      last_error = kSuccess, last_error_str = []\<rparr>) = False"
  by (simp add: LoadFromFile_def parser_defs)

text \<open>
  Claim C1.  When \<open>LoadFromFile\<close> returns false, whatever the error, the vertex buffer
  and the polygon buffer of the model are empty afterwards, and \<open>GetVertexCount\<close> is 0.
\<close>

theorem failed_load_leaves_buffers_empty:
  "fst (LoadFromFile fs path m0) = False \<Longrightarrow>
     vertices (snd (LoadFromFile fs path m0)) = []
     \<and> polygons (snd (LoadFromFile fs path m0)) = []
     \<and> GetVertexCount (snd (LoadFromFile fs path m0)) = 0"
  using LoadFromFile_failure_buffers[of fs path m0] by (simp add: GetVertexCount_def)

theorem failed_load_leaves_buffers_empty_witness:
  "vertices (snd (LoadFromFile (\<lambda>p. Some [''# mesh'', ''v 1 2'', ''f 1 2 3'']) ''b.obj''
     \<lparr>path_file = ''a.obj'', vertices = [\<lparr>vx = 0, vy = 0, vz = 0\<rparr>], polygons = [],
      last_error = kSuccess, last_error_str = []\<rparr>)) = []
   \<and> polygons (snd (LoadFromFile (\<lambda>p. Some [''# mesh'', ''v 1 2'', ''f 1 2 3'']) ''b.obj''
     \<lparr>path_file = ''a.obj'', vertices = [\<lparr>vx = 0, vy = 0, vz = 0\<rparr>], polygons = [],
      last_error = kSuccess, last_error_str = []\<rparr>)) = []
   \<and> GetVertexCount (snd (LoadFromFile (\<lambda>p. Some [''# mesh'', ''v 1 2'', ''f 1 2 3'']) ''b.obj''
     \<lparr>path_file = ''a.obj'', vertices = [\<lparr>vx = 0, vy = 0, vz = 0\<rparr>], polygons = [],
      last_error = kSuccess, last_error_str = []\<rparr>)) = 0"
  by (rule failed_load_leaves_buffers_empty[OF example_failed_load])

text \<open>
  Claim C6.  Whenever the loop of \<open>LoadFromFile\<close> ends with \<open>has_valid_data\<close> set, so
  that the load reaches the final \<open>IsValid\<close> check, the check succeeds and the load
  returns true with the model the loop produced; hence a load that fails reports
  \<open>kFileOpenError\<close> or \<open>kNoValidData\<close>, never the \<open>kInvalidData\<close> of the branch
  after parsing.  The reasons: \<open>ParsePolygon\<close> appends a polygon only if it is valid for
  the current number of vertices, which is then not zero, and leaves the vertices alone;
  and the number of vertices never decreases along the loop.
\<close>

theorem final_IsValid_check_succeeds:
  "(fs path = Some file_lines \<longrightarrow>
      LoadFromFile_loop file_lines 0 False
        ((ClearErrors m0)\<lparr>vertices := [], polygons := [], path_file := path\<rparr>) = (True, m2) \<longrightarrow>
      Model_IsValid m2 \<and> LoadFromFile fs path m0 = (True, m2))
   \<and> (fst (LoadFromFile fs path m0) = False \<longrightarrow>
        last_error (snd (LoadFromFile fs path m0)) = kFileOpenError
        \<or> last_error (snd (LoadFromFile fs path m0)) = kNoValidData)
   \<and> (ParsePolygon line m = Inr (m', True) \<longrightarrow>
        vertices m \<noteq> [] \<and> vertices m' = vertices m
        \<and> (\<exists>p. polygons m' = polygons m @ [p] \<and> Polygon_IsValid p (length (vertices m))))
   \<and> (LoadFromFile_loop file_lines n h m = (h', m') \<longrightarrow>
        length (vertices m) \<le> length (vertices m'))"
proof (intro conjI impI)
  assume fs: "fs path = Some file_lines"
    and run: "LoadFromFile_loop file_lines 0 False
        ((ClearErrors m0)\<lparr>vertices := [], polygons := [], path_file := path\<rparr>) = (True, m2)"
  have "load_inv True m2" using LoadFromFile_loop_inv[OF load_inv_start run] .
  then show "Model_IsValid m2" by (rule load_inv_True_IsValid)
  then show "LoadFromFile fs path m0 = (True, m2)"
    using fs run by (simp add: LoadFromFile_def Let_def)
next
  assume "fst (LoadFromFile fs path m0) = False"
  then show "last_error (snd (LoadFromFile fs path m0)) = kFileOpenError
        \<or> last_error (snd (LoadFromFile fs path m0)) = kNoValidData"
    using LoadFromFile_failure_buffers by blast
next
  assume p: "ParsePolygon line m = Inr (m', True)"
  from ParsePolygon_Inr[OF p] obtain p where
    m': "m' = m\<lparr>polygons := polygons m @ [p]\<rparr>" and v: "Polygon_IsValid p (length (vertices m))"
    by auto
  from v have "vertices m \<noteq> []" using Polygon_IsValid_pos by fastforce
  then show "vertices m \<noteq> []" .
  show "vertices m' = vertices m" using m' by simp
  show "\<exists>p. polygons m' = polygons m @ [p] \<and> Polygon_IsValid p (length (vertices m))"
    using m' v by auto
next
  assume "LoadFromFile_loop file_lines n h m = (h', m')"
  then show "length (vertices m) \<le> length (vertices m')"
    by (rule LoadFromFile_loop_vertex_count)
qed

theorem final_IsValid_check_succeeds_witness:
  "Model_IsValid \<lparr>path_file = ''a.obj'',
        vertices = [\<lparr>vx = 0, vy = 0, vz = 0\<rparr>, \<lparr>vx = 1, vy = 0, vz = 0\<rparr>,
                    \<lparr>vx = 0, vy = 1, vz = 0\<rparr>],
        polygons = [\<lparr>vertex_indices = [0, 1, 2]\<rparr>],
        last_error = kSuccess, last_error_str = []\<rparr>
   \<and> LoadFromFile (\<lambda>p. Some [''v 0 0 0'', ''v 1 0 0'', ''v 0 1 0'', ''f 1 2 3'']) ''a.obj'' new_Model
       = (True, \<lparr>path_file = ''a.obj'',
        vertices = [\<lparr>vx = 0, vy = 0, vz = 0\<rparr>, \<lparr>vx = 1, vy = 0, vz = 0\<rparr>,
                    \<lparr>vx = 0, vy = 1, vz = 0\<rparr>],
        polygons = [\<lparr>vertex_indices = [0, 1, 2]\<rparr>],
        last_error = kSuccess, last_error_str = []\<rparr>)"
proof -
  have opened: "(\<lambda>p. Some [''v 0 0 0'', ''v 1 0 0'', ''v 0 1 0'', ''f 1 2 3'']) ''a.obj''
      = Some [''v 0 0 0'', ''v 1 0 0'', ''v 0 1 0'', ''f 1 2 3'']"
    by (rule refl)
  show ?thesis
    by (rule final_IsValid_check_succeeds[THEN conjunct1, rule_format, OF opened example_load_loop])
qed

section \<open>Vertex records\<close>

subsection \<open>Scanning stops at white space\<close>










lemma scan_examples:
  "sscanf_v_fff ''v 1.5e2 -.5 +3.'' = [150, - (1 / 2), 3]"
  "sscanf_v_fff ''v 1-2-3'' = [1, - 2, - 3]"
  "sscanf_v_fff ''v 1 x 2'' = [1]"
  "sscanf_v_fff ''v 1e 2 3'' = [1]"
  "sscanf_v_fff ''v 25e-1 2 3abc'' = [5 / 2, 2, 3]"
  by (simp_all add: parser_defs)





















section \<open>Face indices\<close>

text \<open>
  What the token loop of \<open>ParsePolygon\<close> does with a token that denotes the integer
  \<open>k\<close>, for a vertex count \<open>n\<close> below \<open>2 ^ 64\<close>: the token is accepted as the index
  \<open>k - 1\<close> when \<open>1 \<le> k \<le> n\<close>; it is rejected when \<open>k\<close> is zero, above \<open>n\<close>, or
  negative and above \<open>n - 2 ^ 64\<close>; and it is accepted as the index \<open>k + 2 ^ 64 - 1\<close> when
  \<open>k\<close> is negative and at most \<open>n - 2 ^ 64\<close> (and not below \<open>1 - 2 ^ 64\<close>).
\<close>

lemma no_space_dropWhile: "\<forall>c \<in> set t. \<not> isspace c \<Longrightarrow> dropWhile isspace t = t"
  by (cases t) auto

lemma unat_word_of_int_64: "unat (word_of_int k :: 64 word) = nat (k mod 2 ^ 64)"
  by (simp add: unat_eq_nat_uint uint_word_of_int take_bit_eq_mod)

lemma word_of_int_64_zero:
  "(word_of_int k :: 64 word) = 0 \<longleftrightarrow> k mod 2 ^ 64 = 0"
  by (simp add: word_of_int_eq_0_iff mod_eq_0_iff_dvd)

lemma stoul_token_value:
  assumes "\<forall>c \<in> set t. \<not> isspace c"
  shows "stoul t =
     (case spec_token_value t of
        None \<Rightarrow> Inl invalid_argument
      | Some k \<Rightarrow> if k < - (2 ^ 64 - 1) \<or> 2 ^ 64 - 1 < k then Inl out_of_range
                  else Inr (word_of_int k))"
proof -
  have d: "dropWhile isspace t = t" by (rule no_space_dropWhile[OF assms])
  show ?thesis
    unfolding stoul_def spec_token_value_def d
    by (simp split: prod.splits)
qed

lemma cut_slash_no_space:
  "\<forall>c \<in> set tok. \<not> isspace c \<Longrightarrow> \<forall>c \<in> set (cut_slash tok). \<not> isspace c"
  unfolding cut_slash_def by (meson set_takeWhileD)

lemma ParsePolygon_loop_index_check:
  assumes "\<forall>c \<in> set tok. \<not> isspace c"
  shows "ParsePolygon_loop (tok # rest) n acc =
    (case spec_token_value (cut_slash tok) of
       None \<Rightarrow> Inl (''Invalid face index: '' @ cut_slash tok)
     | Some k \<Rightarrow>
         if - (2 ^ 64) < k \<and> k < 2 ^ 64 \<and> 1 \<le> k mod 2 ^ 64 \<and> k mod 2 ^ 64 \<le> int n
         then ParsePolygon_loop rest n (acc @ [nat (k mod 2 ^ 64) - 1])
         else Inl (''Invalid face index: '' @ cut_slash tok))"
proof (cases "spec_token_value (cut_slash tok)")
  case None
  then show ?thesis
    by (simp add: stoul_token_value[OF cut_slash_no_space[OF assms]])
next
  case (Some k)
  have pos: "0 \<le> k mod 2 ^ 64" by simp
  define accepted where
    "accepted = (- (2 ^ 64) < k \<and> k < 2 ^ 64 \<and> 1 \<le> k mod 2 ^ 64 \<and> k mod 2 ^ 64 \<le> int n)"
  have rhs: "(case spec_token_value (cut_slash tok) of
       None \<Rightarrow> Inl (''Invalid face index: '' @ cut_slash tok)
     | Some k \<Rightarrow>
         if - (2 ^ 64) < k \<and> k < 2 ^ 64 \<and> 1 \<le> k mod 2 ^ 64 \<and> k mod 2 ^ 64 \<le> int n
         then ParsePolygon_loop rest n (acc @ [nat (k mod 2 ^ 64) - 1])
         else Inl (''Invalid face index: '' @ cut_slash tok))
     = (if accepted then ParsePolygon_loop rest n (acc @ [nat (k mod 2 ^ 64) - 1])
        else Inl (''Invalid face index: '' @ cut_slash tok))"
    unfolding Some accepted_def by simp
  have lhs: "ParsePolygon_loop (tok # rest) n acc =
     (if k < - (2 ^ 64 - 1) \<or> 2 ^ 64 - 1 < k
      then Inl (''Invalid face index: '' @ cut_slash tok)
      else if k mod 2 ^ 64 = 0 \<or> n < nat (k mod 2 ^ 64)
           then Inl (''Invalid face index: '' @ cut_slash tok)
           else ParsePolygon_loop rest n (acc @ [nat (k mod 2 ^ 64) - 1]))"
    by (simp add: stoul_token_value[OF cut_slash_no_space[OF assms]] Some
        unat_word_of_int_64 word_of_int_64_zero)
  have "accepted = (\<not> (k < - (2 ^ 64 - 1) \<or> 2 ^ 64 - 1 < k)
                    \<and> \<not> (k mod 2 ^ 64 = 0 \<or> n < nat (k mod 2 ^ 64)))"
    unfolding accepted_def using pos by auto
  then show ?thesis unfolding rhs lhs by simp
qed

lemma extract_tokens_no_space:
  "t \<in> set (extract_tokens s token) \<Longrightarrow> \<forall>c \<in> set token. \<not> isspace c
     \<Longrightarrow> \<forall>c \<in> set t. \<not> isspace c"
proof (induction s arbitrary: token)
  case Nil
  then show ?case by (auto split: if_splits)
next
  case (Cons ch s)
  show ?case
  proof (cases "isspace ch")
    case True
    then show ?thesis using Cons.prems Cons.IH[of "[]"] by (auto split: if_splits)
  next
    case False
    then show ?thesis using Cons.prems Cons.IH[of "token @ [ch]"] by auto
  qed
qed

lemma mod_of_negative:
  assumes "- m < k" "k < 0"
  shows "k mod m = k + (m::int)"
proof -
  have "(k + m) mod m = k + m" using assms by (intro mod_pos_pos_trivial) auto
  then show ?thesis by simp
qed

lemma face_token_outcomes:
  assumes "\<forall>c \<in> set tok. \<not> isspace c"
    and "spec_token_value (cut_slash tok) = Some k"
    and "n < 2 ^ 64"
  shows "1 \<le> k \<and> k \<le> int n \<Longrightarrow>
           ParsePolygon_loop (tok # rest) n acc = ParsePolygon_loop rest n (acc @ [nat k - 1])"
    and "k = 0 \<or> int n < k \<or> (k < 0 \<and> - (2 ^ 64 - int n) < k) \<Longrightarrow>
           ParsePolygon_loop (tok # rest) n acc = Inl (''Invalid face index: '' @ cut_slash tok)"
    and "- (2 ^ 64 - 1) \<le> k \<and> k \<le> - (2 ^ 64 - int n) \<Longrightarrow>
           ParsePolygon_loop (tok # rest) n acc
             = ParsePolygon_loop rest n (acc @ [nat (k + 2 ^ 64) - 1])"
proof -
  note eq = ParsePolygon_loop_index_check[OF assms(1), of rest n acc, unfolded assms(2) option.case]
  have n: "int n < 2 ^ 64" using assms(3) by (metis of_nat_less_iff of_nat_numeral of_nat_power)
  {
    assume a: "1 \<le> k \<and> k \<le> int n"
    then have "k mod 2 ^ 64 = k" using n by simp
    then show "ParsePolygon_loop (tok # rest) n acc = ParsePolygon_loop rest n (acc @ [nat k - 1])"
      unfolding eq using a n by simp
  }
  {
    assume a: "k = 0 \<or> int n < k \<or> (k < 0 \<and> - (2 ^ 64 - int n) < k)"
    have "\<not> (- (2 ^ 64) < k \<and> k < 2 ^ 64 \<and> 1 \<le> k mod 2 ^ 64 \<and> k mod 2 ^ 64 \<le> int n)"
    proof
      assume b: "- (2 ^ 64) < k \<and> k < 2 ^ 64 \<and> 1 \<le> k mod 2 ^ 64 \<and> k mod 2 ^ 64 \<le> int n"
      show False
      proof (cases "0 \<le> k")
        case True
        then have "k mod 2 ^ 64 = k" using b by simp
        then show False using a b True by auto
      next
        case False
        then have "k mod 2 ^ 64 = k + 2 ^ 64"
          using b by (intro mod_of_negative) auto
        then show False using a b False by auto
      qed
    qed
    then show "ParsePolygon_loop (tok # rest) n acc = Inl (''Invalid face index: '' @ cut_slash tok)"
      unfolding eq by (simp only: if_False)
  }
  {
    assume a: "- (2 ^ 64 - 1) \<le> k \<and> k \<le> - (2 ^ 64 - int n)"
    then have neg: "k < 0" "- (2 ^ 64) < k" using n by auto
    then have m: "k mod 2 ^ 64 = k + 2 ^ 64"
      by (intro mod_of_negative) auto
    show "ParsePolygon_loop (tok # rest) n acc
             = ParsePolygon_loop rest n (acc @ [nat (k + 2 ^ 64) - 1])"
      unfolding eq m using a neg n by simp
  }
qed

text \<open>
  Claim C4.  The token \<open>-18446744073709551615\<close> denotes a negative integer, and the claim
  makes every token that parses to a negative value a failure of the line.  \<open>std::stoul\<close>
  negates in the unsigned 64-bit type, so the token parses to 1: with three vertices already
  read, the line \<open>f -18446744073709551615 2 3\<close> raises no error and appends the polygon
  with the indices 0, 1, 2.
\<close>

theorem negative_face_index_accepted:
  "spec_token_value ''-18446744073709551615'' = Some (- 18446744073709551615)
   \<and> ParsePolygon ''f -18446744073709551615 2 3''
       \<lparr>path_file = ''a.obj'',
        vertices = [\<lparr>vx = 0, vy = 0, vz = 0\<rparr>, \<lparr>vx = 1, vy = 0, vz = 0\<rparr>,
                    \<lparr>vx = 0, vy = 1, vz = 0\<rparr>],
        polygons = [], last_error = kSuccess, last_error_str = []\<rparr>
     = Inr (\<lparr>path_file = ''a.obj'',
        vertices = [\<lparr>vx = 0, vy = 0, vz = 0\<rparr>, \<lparr>vx = 1, vy = 0, vz = 0\<rparr>,
                    \<lparr>vx = 0, vy = 1, vz = 0\<rparr>],
        polygons = [\<lparr>vertex_indices = [0, 1, 2]\<rparr>], last_error = kSuccess,
        last_error_str = []\<rparr>, True)"
  by (simp add: spec_token_value_def parser_defs)

section \<open>Edges\<close>

lemma set_set_insert: "set (set_insert e es) = insert e (set es)"
  by (auto simp: set_insert_def set_insort_key)

lemma sorted_set_insert: "sorted es \<Longrightarrow> sorted (set_insert e es)"
  by (simp add: set_insert_def sorted_insort)

lemma distinct_set_insert: "distinct es \<Longrightarrow> distinct (set_insert e es)"
  by (simp add: set_insert_def distinct_insort)

lemma pairs_from_step:
  assumes "i < length vi"
  shows "pairs_from vi i =
       (if fst (pair_at vi i) = snd (pair_at vi i) then {} else {pair_at vi i})
       \<union> pairs_from vi (i + 1)"
proof -
  have "{j. i \<le> j \<and> j < length vi \<and> fst (pair_at vi j) \<noteq> snd (pair_at vi j)}
        = (if fst (pair_at vi i) = snd (pair_at vi i) then {} else {i})
          \<union> {j. i + 1 \<le> j \<and> j < length vi \<and> fst (pair_at vi j) \<noteq> snd (pair_at vi j)}"
    using assms by (auto simp: le_less Suc_le_eq)
  then show ?thesis unfolding pairs_from_def by (simp add: image_Un)
qed

lemma pairs_from_end: "\<not> i < length vi \<Longrightarrow> pairs_from vi i = {}"
  by (auto simp: pairs_from_def)

lemma spec_unordered_pair:
  "spec_unordered (a, b) = (if a < b then (a, b) else (b, a))"
  by (auto simp: spec_unordered_def min_def max_def)

lemma GetEdges_inner_props:
  "set (GetEdges_inner vi i es) = set es \<union> spec_unordered ` pairs_from vi i
   \<and> (sorted es \<longrightarrow> sorted (GetEdges_inner vi i es))
   \<and> (distinct es \<longrightarrow> distinct (GetEdges_inner vi i es))"
proof (induction vi i es rule: GetEdges_inner.induct)
  case (1 vi i es)
  show ?case
  proof (cases "i < length vi")
    case False
    then show ?thesis by (simp add: GetEdges_inner.simps[of vi i es] pairs_from_end)
  next
    case True
    show ?thesis
    proof (cases "vi ! i = vi ! ((i + 1) mod length vi)")
      case same: True
      then have "GetEdges_inner vi i es = GetEdges_inner vi (i + 1) es"
        using True by (simp add: GetEdges_inner.simps[of vi i es])
      moreover have "pairs_from vi i = pairs_from vi (i + 1)"
        using pairs_from_step[OF True] same by (simp add: pair_at_def)
      ultimately show ?thesis using "1.IH"(1)[OF True refl refl same] by simp
    next
      case diff: False
      define e where "e = (if vi ! i < vi ! ((i + 1) mod length vi)
                then (vi ! i, vi ! ((i + 1) mod length vi))
                else (vi ! ((i + 1) mod length vi), vi ! i))"
      have eq: "GetEdges_inner vi i es = GetEdges_inner vi (i + 1) (set_insert e es)"
        using True diff by (simp add: GetEdges_inner.simps[of vi i es] Let_def e_def)
      have pf: "pairs_from vi i = {pair_at vi i} \<union> pairs_from vi (i + 1)"
        using pairs_from_step[OF True] diff by (simp add: pair_at_def)
      have ih: "set (GetEdges_inner vi (i + 1) (set_insert e es))
                  = set (set_insert e es) \<union> spec_unordered ` pairs_from vi (i + 1)
           \<and> (sorted (set_insert e es) \<longrightarrow> sorted (GetEdges_inner vi (i + 1) (set_insert e es)))
           \<and> (distinct (set_insert e es) \<longrightarrow> distinct (GetEdges_inner vi (i + 1) (set_insert e es)))"
        using "1.IH"(2)[OF True refl refl diff] unfolding e_def .
      have "spec_unordered (pair_at vi i) = e"
        unfolding e_def pair_at_def by (simp only: spec_unordered_pair)
      then show ?thesis
        using ih unfolding eq pf
        by (simp add: set_set_insert sorted_set_insert distinct_set_insert)
    qed
  qed
qed

lemma pairs_from_0:
  "pairs_from vi 0 = {e \<in> set (spec_consecutive_pairs vi). fst e \<noteq> snd e}"
proof -
  have "set (spec_consecutive_pairs vi) = pair_at vi ` {j. j < length vi}"
    by (auto simp: spec_consecutive_pairs_def pair_at_def)
  then show ?thesis by (auto simp: pairs_from_def)
qed

lemma short_polygon_no_pairs:
  "length vi < 2 \<Longrightarrow> pairs_from vi 0 = {}"
proof -
  assume "length vi < 2"
  then have "\<And>j. j < length vi \<Longrightarrow> j = 0 \<and> (j + 1) mod length vi = 0"
    by (cases vi) auto
  then show ?thesis unfolding pairs_from_def pair_at_def by auto
qed

lemma GetEdges_outer_props:
  "set (GetEdges_outer ps es)
     = set es \<union> (\<Union>p \<in> set ps. spec_unordered ` pairs_from (vertex_indices p) 0)
   \<and> (sorted es \<longrightarrow> sorted (GetEdges_outer ps es))
   \<and> (distinct es \<longrightarrow> distinct (GetEdges_outer ps es))"
proof (induction ps arbitrary: es)
  case Nil
  then show ?case by simp
next
  case (Cons poly rest)
  show ?case
  proof (cases "length (vertex_indices poly) < 2")
    case True
    then show ?thesis using Cons[of es] short_polygon_no_pairs[OF True] by simp
  next
    case False
    then show ?thesis
      using Cons[of "GetEdges_inner (vertex_indices poly) 0 es"]
        GetEdges_inner_props[of "vertex_indices poly" 0 es]
      by (simp add: Un_assoc)
  qed
qed

lemma GetEdges_spec:
  "set (GetEdges m) = spec_edges m \<and> sorted (GetEdges m) \<and> distinct (GetEdges m)"
  using GetEdges_outer_props[of "polygons m" "[]"]
  by (simp add: GetEdges_def spec_edges_def pairs_from_0)

lemma GetEdges_stored_min_max: "list_all (\<lambda>e. fst e < snd e) (GetEdges m)"
proof -
  have "\<And>e. e \<in> spec_edges m \<Longrightarrow> fst e < snd e"
    by (auto simp: spec_edges_def spec_unordered_def min_def max_def)
  then show ?thesis using GetEdges_spec[of m] by (simp add: list_all_iff)
qed

text \<open>
  Claim C7, as stated, fails.  The file with three vertices and the face \<open>f 1 1 2 3\<close>
  loads to a mesh whose polygon has the indices 0, 0, 1, 2.  Its consecutive pairs include
  (0, 0), which the literal reading of the claim puts among the edges; \<open>GetEdges\<close> skips
  a pair whose two indices are equal and returns the three edges (0, 1), (0, 2), (1, 2).
\<close>

theorem GetEdges_repeated_index_counterexample:
  "LoadFromFile (\<lambda>p. Some [''v 0 0 0'', ''v 1 0 0'', ''v 0 1 0'', ''f 1 1 2 3'']) ''a.obj'' new_Model
     = (True, \<lparr>path_file = ''a.obj'',
          vertices = [\<lparr>vx = 0, vy = 0, vz = 0\<rparr>, \<lparr>vx = 1, vy = 0, vz = 0\<rparr>,
                      \<lparr>vx = 0, vy = 1, vz = 0\<rparr>],
          polygons = [\<lparr>vertex_indices = [0, 0, 1, 2]\<rparr>],
          last_error = kSuccess, last_error_str = []\<rparr>)
   \<and> GetEdges \<lparr>path_file = ''a.obj'',
          vertices = [\<lparr>vx = 0, vy = 0, vz = 0\<rparr>, \<lparr>vx = 1, vy = 0, vz = 0\<rparr>,
                      \<lparr>vx = 0, vy = 1, vz = 0\<rparr>],
          polygons = [\<lparr>vertex_indices = [0, 0, 1, 2]\<rparr>],
          last_error = kSuccess, last_error_str = []\<rparr> = [(0, 1), (0, 2), (1, 2)]
   \<and> (0, 0) \<in> spec_edges_literal \<lparr>path_file = ''a.obj'',
          vertices = [\<lparr>vx = 0, vy = 0, vz = 0\<rparr>, \<lparr>vx = 1, vy = 0, vz = 0\<rparr>,
                      \<lparr>vx = 0, vy = 1, vz = 0\<rparr>],
          polygons = [\<lparr>vertex_indices = [0, 0, 1, 2]\<rparr>],
          last_error = kSuccess, last_error_str = []\<rparr>
   \<and> set (GetEdges \<lparr>path_file = ''a.obj'',
          vertices = [\<lparr>vx = 0, vy = 0, vz = 0\<rparr>, \<lparr>vx = 1, vy = 0, vz = 0\<rparr>,
                      \<lparr>vx = 0, vy = 1, vz = 0\<rparr>],
          polygons = [\<lparr>vertex_indices = [0, 0, 1, 2]\<rparr>],
          last_error = kSuccess, last_error_str = []\<rparr>)
       \<noteq> spec_edges_literal \<lparr>path_file = ''a.obj'',
          vertices = [\<lparr>vx = 0, vy = 0, vz = 0\<rparr>, \<lparr>vx = 1, vy = 0, vz = 0\<rparr>,
                      \<lparr>vx = 0, vy = 1, vz = 0\<rparr>],
          polygons = [\<lparr>vertex_indices = [0, 0, 1, 2]\<rparr>],
          last_error = kSuccess, last_error_str = []\<rparr>"
proof -
  define M where "M = \<lparr>path_file = ''a.obj'',
          vertices = [\<lparr>vx = 0, vy = 0, vz = 0\<rparr>, \<lparr>vx = 1, vy = 0, vz = 0\<rparr>,
                      \<lparr>vx = 0, vy = 1, vz = 0\<rparr>],
          polygons = [\<lparr>vertex_indices = [0, 0, 1, 2]\<rparr>],
          last_error = kSuccess, last_error_str = []\<rparr>"
  have load: "LoadFromFile (\<lambda>p. Some [''v 0 0 0'', ''v 1 0 0'', ''v 0 1 0'', ''f 1 1 2 3''])
      ''a.obj'' new_Model = (True, M)"
    unfolding M_def
    by (simp add: LoadFromFile_def Model_IsValid_def parser_defs)
  have edges: "GetEdges M = [(0, 1), (0, 2), (1, 2)]"
    unfolding M_def by (simp add: GetEdges_def GetEdges_inner.simps set_insert_def)
  have "(0::nat) \<in> set [0..<length [0::nat, 0, 1, 2]]" by simp
  then have "([0::nat, 0, 1, 2] ! 0, [0::nat, 0, 1, 2] ! ((0 + 1) mod length [0::nat, 0, 1, 2]))
        \<in> set (spec_consecutive_pairs [0, 0, 1, 2])"
    unfolding spec_consecutive_pairs_def set_map by (rule imageI)
  then have "(0, 0) \<in> set (spec_consecutive_pairs [0, 0, 1, 2])" by simp
  then have "spec_unordered (0, 0) \<in> spec_unordered ` set (spec_consecutive_pairs [0, 0, 1, 2])"
    by (rule imageI)
  then have lit: "(0, 0) \<in> spec_edges_literal M"
    unfolding M_def by (simp add: spec_edges_literal_def spec_unordered_def)
  have "(0, 0) \<notin> set (GetEdges M)" by (simp add: edges)
  then have "set (GetEdges M) \<noteq> spec_edges_literal M" using lit by blast
  then show ?thesis using load edges lit unfolding M_def by simp
qed

text \<open>
  Claim C7, amended.  For every mesh \<open>GetEdges\<close> returns exactly the unordered pairs of
  consecutive vertex indices that differ within each polygon, the wrap-around pair
  (last, first) included, each stored as (min, max) with min below max, every pair once
  (in increasing order) however many polygons contain it.  A triangle with the indices
  0, 1, 2 yields the three pairs (0, 1), (0, 2), (1, 2); a quad with the indices 0, 1, 2, 3
  yields the four pairs (0, 1), (0, 3), (1, 2), (2, 3).
\<close>

theorem GetEdges_distinct_consecutive_pairs:
  "set (GetEdges m) = spec_edges m
   \<and> distinct (GetEdges m) \<and> sorted (GetEdges m)
   \<and> list_all (\<lambda>e. fst e < snd e) (GetEdges m)
   \<and> GetEdges (m\<lparr>polygons := [\<lparr>vertex_indices = [0, 1, 2]\<rparr>]\<rparr>) = [(0, 1), (0, 2), (1, 2)]
   \<and> GetEdges (m\<lparr>polygons := [\<lparr>vertex_indices = [0, 1, 2, 3]\<rparr>]\<rparr>)
       = [(0, 1), (0, 3), (1, 2), (2, 3)]"
proof -
  have "GetEdges (m\<lparr>polygons := [\<lparr>vertex_indices = [0, 1, 2]\<rparr>]\<rparr>) = [(0, 1), (0, 2), (1, 2)]"
    by (simp add: GetEdges_def GetEdges_inner.simps set_insert_def)
  moreover have "GetEdges (m\<lparr>polygons := [\<lparr>vertex_indices = [0, 1, 2, 3]\<rparr>]\<rparr>)
       = [(0, 1), (0, 3), (1, 2), (2, 3)]"
    by (simp add: GetEdges_def GetEdges_inner.simps set_insert_def)
  ultimately show ?thesis using GetEdges_spec[of m] GetEdges_stored_min_max[of m] by simp
qed

theorem GetEdges_distinct_consecutive_pairs_witness:
  "GetEdges \<lparr>path_file = ''a.obj'', vertices = [], 
      polygons = [\<lparr>vertex_indices = [0, 1, 2]\<rparr>, \<lparr>vertex_indices = [2, 0, 0, 3]\<rparr>],
      last_error = kSuccess, last_error_str = []\<rparr> = [(0, 1), (0, 2), (0, 3), (1, 2), (2, 3)]
   \<and> set [(0, 1), (0, 2), (0, 3), (1, 2), (2, 3)]
       = spec_edges \<lparr>path_file = ''a.obj'', vertices = [], 
      polygons = [\<lparr>vertex_indices = [0, 1, 2]\<rparr>, \<lparr>vertex_indices = [2, 0, 0, 3]\<rparr>],
      last_error = kSuccess, last_error_str = []\<rparr>"
proof -
  define M where "M = \<lparr>path_file = ''a.obj'', vertices = [], 
      polygons = [\<lparr>vertex_indices = [0, 1, 2]\<rparr>, \<lparr>vertex_indices = [2, 0, 0, 3]\<rparr>],
      last_error = kSuccess, last_error_str = []\<rparr>"
  have e: "GetEdges M = [(0, 1), (0, 2), (0, 3), (1, 2), (2, 3)]"
    unfolding M_def by (simp add: GetEdges_def GetEdges_inner.simps set_insert_def)
  have "set (GetEdges M) = spec_edges M"
    using GetEdges_distinct_consecutive_pairs[of M] by (rule conjunct1)
  then show ?thesis using e unfolding M_def by simp
qed

section \<open>Normalisation\<close>






lemma spec_radius_nonneg: "0 \<le> spec_radius vs"
  by (simp add: spec_radius_def)






















end
